theory Spec2Isabelle
  imports Main "HOL-Library.Log_Nat" "HOL-Library.AList"
begin

section \<open>Python values used by the review pipeline\<close>

subsection \<open>Strings\<close>

text \<open>
  A Python \<^verbatim>\<open>str\<close> is a sequence of Unicode code points, and \<^verbatim>\<open>len\<close>, slicing and
  \<^verbatim>\<open>split\<close> count code points. A string is therefore a list of code points;
  \<open>ascii\<close> turns a literal of the theory into such a list.
\<close>

type_synonym ustr = "nat list"

definition ascii :: "string \<Rightarrow> ustr" where
  "ascii s = map of_char s"

text \<open>
  The characters \<^verbatim>\<open>str.strip()\<close>, \<^verbatim>\<open>\s\<close> of the \<^verbatim>\<open>re\<close> module take for white space
  (CPython's \<^verbatim>\<open>Py_UNICODE_ISSPACE\<close>): U+0009..U+000D, U+001C..U+001F, U+0020, U+0085,
  U+00A0, U+1680, U+2000..U+200A, U+2028, U+2029, U+202F, U+205F, U+3000.
\<close>

definition is_space :: "nat \<Rightarrow> bool" where
  "is_space c =
     (c \<in> set [9, 10, 11, 12, 13, 28, 29, 30, 31, 32, 133, 160, 5760,
                8232, 8233, 8239, 8287, 12288] \<or> (8192 \<le> c \<and> c \<le> 8202))"

definition strip :: "ustr \<Rightarrow> ustr" where
  "strip s = rev (dropWhile is_space (rev (dropWhile is_space s)))"

text \<open>\<^verbatim>\<open>s.split(sep)\<close> for a separator of one character: never the empty list.\<close>

fun split_on :: "nat \<Rightarrow> ustr \<Rightarrow> ustr list" where
  "split_on sep [] = [[]]"
| "split_on sep (c # cs) =
     (if c = sep then [] # split_on sep cs
      else (case split_on sep cs of
              l # ls \<Rightarrow> (c # l) # ls
            | [] \<Rightarrow> [[c]]))"

definition startswith :: "ustr \<Rightarrow> ustr \<Rightarrow> bool" where
  "startswith s p = (take (length p) s = p)"

text \<open>
  \<^verbatim>\<open>sep.join(parts)\<close>.
\<close>

fun join :: "ustr \<Rightarrow> ustr list \<Rightarrow> ustr" where
  "join sep [] = []"
| "join sep [p] = p"
| "join sep (p # q # ps) = p @ sep @ join sep (q # ps)"

text \<open>
  \<^verbatim>\<open>str.lower()\<close> on the letters A..Z. Python lowers every cased code point; the
  keywords counted below are ASCII words, and the only code points outside ASCII whose
  lower case contains an ASCII letter are U+212A (to k, in no keyword) and U+0130 (to
  i followed by U+0307, so that no keyword continues after it): the counts are those
  of Python.
\<close>

definition lower :: "ustr \<Rightarrow> ustr" where
  "lower s = map (\<lambda>c. if 65 \<le> c \<and> c \<le> 90 then c + 32 else c) s"

text \<open>\<^verbatim>\<open>s.count(kw)\<close>: occurrences of \<open>kw\<close> in \<open>s\<close>, left to right, not overlapping.\<close>

function count_sub :: "ustr \<Rightarrow> ustr \<Rightarrow> nat" where
  "count_sub s kw =
     (if kw = [] then length s + 1
      else if length s < length kw then 0
      else if take (length kw) s = kw then 1 + count_sub (drop (length kw) s) kw
      else count_sub (tl s) kw)"
  by pat_completeness auto
termination
proof (relation "measure (\<lambda>(s, kw). length s)")
  show "wf (measure (\<lambda>(s, kw). length s))" by simp
next
  fix s kw :: ustr
  assume "kw \<noteq> []" and "\<not> length s < length kw"
  then obtain k ks where "kw = k # ks" and "Suc (length ks) \<le> length s"
    by (cases kw) auto
  then show "((drop (length kw) s, kw), (s, kw)) \<in> measure (\<lambda>(s, kw). length s)"
    by simp
next
  fix s kw :: ustr
  assume "kw \<noteq> []" and "\<not> length s < length kw"
  then obtain k ks where "kw = k # ks" and "Suc (length ks) \<le> length s"
    by (cases kw) auto
  then show "((tl s, kw), (s, kw)) \<in> measure (\<lambda>(s, kw). length s)"
    by (cases s) simp_all
qed

subsection \<open>Floats\<close>

text \<open>
  A Python \<^verbatim>\<open>float\<close> is an IEEE 754 binary64 number. The finite ones are modelled by
  their rational value; \<open>binary64 x\<close> is the float nearest to the rational \<open>x\<close>, ties
  going to the even significand of 53 bits. The exponent range is left unbounded:
  the quotients computed here lie between \<open>1 / n\<close>, for \<open>n\<close> the length of a list in
  memory, and 100, far from overflow and from the subnormal numbers.
\<close>

definition round_half_even :: "rat \<Rightarrow> int" where
  "round_half_even x =
     (let f = \<lfloor>x\<rfloor>; d = x - of_int f
      in if d < 1 / 2 then f
         else if 1 / 2 < d then f + 1
         else if even f then f else f + 1)"

text \<open>\<open>ilog2 x\<close> is the integer \<open>k\<close> with \<open>2 powi k \<le> x < 2 powi (k + 1)\<close>, for \<open>x > 0\<close>.\<close>

definition ilog2 :: "rat \<Rightarrow> int" where
  "ilog2 x =
     (let (a, b) = quotient_of x;
          k = bitlen a - bitlen b
      in if 2 powi k \<le> x then k else k - 1)"

definition binary64 :: "rat \<Rightarrow> rat" where
  "binary64 x =
     (if x = 0 then 0
      else let e = ilog2 \<bar>x\<bar> - 52
           in of_int (round_half_even (x / 2 powi e)) * 2 powi e)"

text \<open>
  \<^verbatim>\<open>round(x, 2)\<close> on a float: CPython rounds the exact value of \<open>x\<close> to two decimals,
  half to even, and returns the float nearest to that decimal.
\<close>

definition py_round2 :: "rat \<Rightarrow> rat" where
  "py_round2 x = binary64 (of_int (round_half_even (x * 100)) / 100)"

subsection \<open>Dictionaries\<close>

text \<open>
  A \<^verbatim>\<open>dict\<close> keeps its keys in insertion order and \<^verbatim>\<open>items()\<close> reads them in that
  order: it is an association list with distinct keys. \<^verbatim>\<open>d[k] = v\<close> is
  \<open>AList.update k v d\<close>, which replaces the value of a key already there, in place, and
  puts a new key last. The FileSet is such a dictionary from file names to contents.
\<close>

type_synonym ('k, 'v) dict = "('k \<times> 'v) list"

type_synonym fileset = "(ustr, ustr) dict"

section \<open>llm\_service.py\<close>

subsection \<open>calculate\_code\_metrics\<close>

record file_metrics =
  total_lines :: nat
  code_lines :: nat
  comment_lines :: nat
  complexity_score :: nat
  comment_ratio :: rat

definition complexity_keywords :: "ustr list" where
  "complexity_keywords =
     map ascii [''if'', ''for'', ''while'', ''elif'', ''else'', ''try'', ''except'',
                ''def'', ''class'']"

text \<open>The body of the loop over \<^verbatim>\<open>files.items()\<close>: the entry stored for one file.\<close>

definition file_metrics_of :: "ustr \<Rightarrow> file_metrics" where
  "file_metrics_of content =
     (let lines = split_on 10 (strip content);
          total = length lines;
          code = length (filter (\<lambda>l. strip l \<noteq> [] \<and> \<not> startswith (strip l) (ascii ''#'')) lines);
          comment = length (filter (\<lambda>l. startswith (strip l) (ascii ''#'')) lines);
          complexity = sum_list (map (\<lambda>kw. count_sub (lower content) kw) complexity_keywords)
      in \<lparr>total_lines = total,
          code_lines = code,
          comment_lines = comment,
          complexity_score = complexity,
          comment_ratio =
            py_round2 (if total > 0
                       then binary64 (binary64 (of_nat comment / of_nat total) * 100)
                       else 0)\<rparr>)"

fun metrics_loop :: "(ustr, file_metrics) dict \<Rightarrow> fileset \<Rightarrow> (ustr, file_metrics) dict" where
  "metrics_loop metrics [] = metrics"
| "metrics_loop metrics ((filename, content) # files) =
     metrics_loop (AList.update filename (file_metrics_of content) metrics) files"

definition calculate_code_metrics :: "fileset \<Rightarrow> (ustr, file_metrics) dict" where
  "calculate_code_metrics files = metrics_loop [] files"

text \<open>
  The number of lines that are blank after trimming, which the identity between
  \<open>total_lines\<close>, \<open>code_lines\<close> and \<open>comment_lines\<close> speaks of.
\<close>

definition blank_count :: "ustr list \<Rightarrow> nat" where
  "blank_count lines = length (filter (\<lambda>l. strip l = []) lines)"

section \<open>Properties of the float model\<close>

lemma rhe_of_int: "round_half_even (of_int n) = n"
  by (simp add: round_half_even_def)

lemma rhe_floor: "\<lfloor>x\<rfloor> \<le> round_half_even x" "round_half_even x \<le> \<lfloor>x\<rfloor> + 1"
  by (simp_all add: round_half_even_def Let_def)

lemma rhe_mono:
  assumes "x \<le> y"
  shows "round_half_even x \<le> round_half_even y"
proof (cases "\<lfloor>x\<rfloor> = \<lfloor>y\<rfloor>")
  case True
  with assms show ?thesis
    by (auto simp: round_half_even_def Let_def)
next
  case False
  with assms have "\<lfloor>x\<rfloor> < \<lfloor>y\<rfloor>"
    using floor_mono [of x y] by linarith
  then show ?thesis
    using rhe_floor(2) [of x] rhe_floor(1) [of y] by linarith
qed

lemma rat_of_nat_pow2_bounds:
  assumes "0 < a" and "2 ^ (n - 1) \<le> nat a" and "nat a < 2 ^ n"
  shows "(2::rat) ^ (n - 1) \<le> of_int a" and "of_int a < (2::rat) ^ n"
proof -
  have "rat_of_nat (2 ^ (n - 1)) \<le> rat_of_nat (nat a)"
    using assms(2) by (simp only: of_nat_le_iff)
  then show "(2::rat) ^ (n - 1) \<le> of_int a" using assms(1) by simp
  have "rat_of_nat (nat a) < rat_of_nat (2 ^ n)"
    using assms(3) by (simp only: of_nat_less_iff)
  then show "of_int a < (2::rat) ^ n" using assms(1) by simp
qed

lemma ilog2_coarse:
  assumes "0 < x" and q: "quotient_of x = (a, b)"
  defines "k \<equiv> bitlen a - bitlen b"
  shows "2 powi (k - 1) \<le> x" "x < 2 powi (k + 1)"
proof -
  have b: "0 < b" using q by (rule quotient_of_denom_pos)
  have x: "x = of_int a / of_int b" using q by (rule quotient_of_div)
  have a: "0 < a" using assms(1) b x by (simp add: zero_less_divide_iff)
  define fa where "fa = floorlog 2 (nat a)"
  define fb where "fb = floorlog 2 (nat b)"
  have fa1: "1 \<le> fa" using a by (simp add: fa_def floorlog_def)
  have fb1: "1 \<le> fb" using b by (simp add: fb_def floorlog_def)
  have "2 ^ (fa - 1) \<le> nat a" "nat a < 2 ^ fa"
    using floorlog_bounds [of "nat a" 2] a by (simp_all add: fa_def)
  then have ra: "(2::rat) ^ (fa - 1) \<le> of_int a" "of_int a < (2::rat) ^ fa"
    using a by (rule rat_of_nat_pow2_bounds [rotated])+
  have "2 ^ (fb - 1) \<le> nat b" "nat b < 2 ^ fb"
    using floorlog_bounds [of "nat b" 2] b by (simp_all add: fb_def)
  then have rb: "(2::rat) ^ (fb - 1) \<le> of_int b" "of_int b < (2::rat) ^ fb"
    using b by (rule rat_of_nat_pow2_bounds [rotated])+
  have k1: "(2::rat) powi (k - 1) = 2 ^ (fa - 1) / 2 ^ fb"
  proof -
    have "k - 1 = int (fa - 1) - int fb"
      using fa1 by (simp add: k_def fa_def fb_def bitlen_def)
    then show ?thesis by (simp add: power_int_diff)
  qed
  have k2: "(2::rat) powi (k + 1) = 2 ^ fa / 2 ^ (fb - 1)"
  proof -
    have "k + 1 = int fa - int (fb - 1)"
      using fb1 by (simp add: k_def fa_def fb_def bitlen_def)
    then show ?thesis by (simp add: power_int_diff)
  qed
  have rb0: "(0::rat) < of_int b" using b by simp
  have "(2::rat) ^ (fa - 1) / 2 ^ fb \<le> of_int a / 2 ^ fb"
    using ra(1) by (simp add: divide_right_mono)
  also have "\<dots> \<le> of_int a / of_int b"
    using rb(2) rb0 a by (simp add: frac_le)
  finally show "2 powi (k - 1) \<le> x" by (simp add: k1 x)
  have "of_int a / of_int b < (2::rat) ^ fa / of_int b"
    using ra(2) rb0 by (simp add: divide_strict_right_mono)
  also have "\<dots> \<le> 2 ^ fa / 2 ^ (fb - 1)"
    using rb(1) by (simp add: frac_le)
  finally show "x < 2 powi (k + 1)" by (simp add: k2 x)
qed

lemma ilog2_bounds:
  assumes "0 < x"
  shows "2 powi (ilog2 x) \<le> x" "x < 2 powi (ilog2 x + 1)"
proof -
  obtain a b where q: "quotient_of x = (a, b)" by (cases "quotient_of x")
  define k where "k = bitlen a - bitlen b"
  have c: "2 powi (k - 1) \<le> x" "x < 2 powi (k + 1)"
    using ilog2_coarse [OF assms q] by (simp_all add: k_def)
  have i: "ilog2 x = (if 2 powi k \<le> x then k else k - 1)"
    by (simp add: ilog2_def q k_def)
  show "2 powi (ilog2 x) \<le> x" using c(1) by (simp add: i)
  show "x < 2 powi (ilog2 x + 1)" using c(2) by (auto simp add: i)
qed

lemma ilog2_mono:
  assumes "0 < x" "x \<le> y"
  shows "ilog2 x \<le> ilog2 y"
proof (rule ccontr)
  assume "\<not> ilog2 x \<le> ilog2 y"
  then have "ilog2 y + 1 \<le> ilog2 x" by simp
  then have "(2::rat) powi (ilog2 y + 1) \<le> 2 powi (ilog2 x)"
    by (simp add: power_int_increasing)
  also have "\<dots> \<le> x" using assms(1) by (rule ilog2_bounds)
  also have "\<dots> \<le> y" by (rule assms(2))
  also have "\<dots> < 2 powi (ilog2 y + 1)" using assms by (intro ilog2_bounds) simp
  finally show False by simp
qed

lemma binary64_pos:
  assumes "0 < x"
  shows "binary64 x =
    of_int (round_half_even (x / 2 powi (ilog2 x - 52))) * 2 powi (ilog2 x - 52)"
  using assms by (simp add: binary64_def Let_def)

lemma binary64_bounds:
  assumes "0 < x"
  shows "2 powi (ilog2 x) \<le> binary64 x" "binary64 x \<le> 2 powi (ilog2 x + 1)"
proof -
  define s :: rat where "s = 2 powi (ilog2 x - 52)"
  have s: "0 < s" by (simp add: s_def)
  have lo: "2 powi (ilog2 x) = 2 ^ 52 * s"
    unfolding s_def by (simp add: power_int_diff)
  have hi: "2 powi (ilog2 x + 1) = 2 ^ 53 * s"
    unfolding s_def by (simp add: power_int_diff power_int_add)
  have "2 ^ 52 * s \<le> x" "x < 2 ^ 53 * s"
    using ilog2_bounds [OF assms] by (simp_all add: lo hi)
  then have q: "of_int (2 ^ 52) \<le> x / s" "x / s \<le> of_int (2 ^ 53)"
    using s by (simp_all add: pos_le_divide_eq pos_divide_le_eq)
  have "round_half_even (of_int (2 ^ 52)) \<le> round_half_even (x / s)"
    using q(1) by (rule rhe_mono)
  then have a: "(2::rat) ^ 52 \<le> of_int (round_half_even (x / s))"
    unfolding rhe_of_int by (metis of_int_le_iff of_int_numeral of_int_power)
  have "round_half_even (x / s) \<le> round_half_even (of_int (2 ^ 53))"
    using q(2) by (rule rhe_mono)
  then have b: "of_int (round_half_even (x / s)) \<le> (2::rat) ^ 53"
    unfolding rhe_of_int by (metis of_int_le_iff of_int_numeral of_int_power)
  have bx: "binary64 x = of_int (round_half_even (x / s)) * s"
    using assms by (simp add: binary64_pos s_def)
  show "2 powi (ilog2 x) \<le> binary64 x"
    unfolding lo bx using a s by (simp only: mult_le_cancel_right_pos)
  show "binary64 x \<le> 2 powi (ilog2 x + 1)"
    unfolding hi bx using b s by (simp only: mult_le_cancel_right_pos)
qed

lemma binary64_nonneg:
  assumes "0 \<le> x"
  shows "0 \<le> binary64 x"
proof (cases "x = 0")
  case True
  then show ?thesis by (simp add: binary64_def)
next
  case False
  with assms have "0 < x" by simp
  then have "2 powi (ilog2 x) \<le> binary64 x" by (rule binary64_bounds)
  moreover have "(0::rat) < 2 powi (ilog2 x)" by simp
  ultimately show ?thesis by linarith
qed

lemma binary64_mono:
  assumes "0 \<le> x" "x \<le> y"
  shows "binary64 x \<le> binary64 y"
proof (cases "x = 0")
  case True
  then show ?thesis using assms binary64_nonneg [of y] by (simp add: binary64_def)
next
  case False
  with assms have x: "0 < x" and y: "0 < y" by simp_all
  have le: "ilog2 x \<le> ilog2 y" using x assms(2) by (rule ilog2_mono)
  show ?thesis
  proof (cases "ilog2 x = ilog2 y")
    case True
    define s :: rat where "s = 2 powi (ilog2 y - 52)"
    have s: "0 < s" by (simp add: s_def)
    have "x / s \<le> y / s" using assms(2) s by (simp add: divide_right_mono)
    then have "round_half_even (x / s) \<le> round_half_even (y / s)" by (rule rhe_mono)
    then have "rat_of_int (round_half_even (x / s)) * s \<le> of_int (round_half_even (y / s)) * s"
      using s by (simp only: mult_le_cancel_right_pos of_int_le_iff)
    then show ?thesis using x y True by (simp add: binary64_pos s_def)
  next
    case False
    with le have "ilog2 x + 1 \<le> ilog2 y" by simp
    then have "(2::rat) powi (ilog2 x + 1) \<le> 2 powi (ilog2 y)"
      by (simp add: power_int_increasing)
    with binary64_bounds(2) [OF x] binary64_bounds(1) [OF y] show ?thesis by linarith
  qed
qed

lemma binary64_0: "binary64 0 = 0"
  by (simp add: binary64_def)

lemma binary64_1: "binary64 1 = 1"
  by code_simp

lemma binary64_100: "binary64 100 = 100"
  by code_simp

lemma binary64_unit_interval:
  assumes "0 \<le> x" "x \<le> 1"
  shows "0 \<le> binary64 x" "binary64 x \<le> 1"
  using assms binary64_nonneg [of x] binary64_mono [of x 1] by (simp_all add: binary64_1)

lemma binary64_percent_interval:
  assumes "0 \<le> x" "x \<le> 100"
  shows "0 \<le> binary64 x" "binary64 x \<le> 100"
  using assms binary64_nonneg [of x] binary64_mono [of x 100] by (simp_all add: binary64_100)

lemma py_round2_0: "py_round2 0 = 0"
  by (simp add: py_round2_def round_half_even_def binary64_def)

lemma py_round2_percent_interval:
  assumes "0 \<le> x" "x \<le> 100"
  shows "0 \<le> py_round2 x" "py_round2 x \<le> 100"
proof -
  have "round_half_even (of_int 0) \<le> round_half_even (x * 100)"
    using assms(1) by (intro rhe_mono) simp
  then have lo: "0 \<le> round_half_even (x * 100)"
    by (simp only: rhe_of_int)
  have "round_half_even (x * 100) \<le> round_half_even (of_int 10000)"
    using assms(2) by (intro rhe_mono) simp
  then have hi: "round_half_even (x * 100) \<le> 10000"
    by (simp only: rhe_of_int)
  have "0 \<le> rat_of_int (round_half_even (x * 100)) / 100"
    using lo by simp
  moreover have "rat_of_int (round_half_even (x * 100)) / 100 \<le> 100"
  proof -
    have "rat_of_int (round_half_even (x * 100)) \<le> rat_of_int 10000"
      using hi by (simp only: of_int_le_iff)
    then show ?thesis by simp
  qed
  ultimately show "0 \<le> py_round2 x" "py_round2 x \<le> 100"
    unfolding py_round2_def by (rule binary64_percent_interval)+
qed

section \<open>The metrics calculator\<close>

lemma split_on_not_Nil: "split_on sep s \<noteq> []"
  by (induction s) (auto split: list.splits)

lemma length_split_on: "1 \<le> length (split_on sep s)"
  using split_on_not_Nil [of sep s] by (cases "split_on sep s") simp_all

lemma not_startswith_Nil: "p \<noteq> [] \<Longrightarrow> \<not> startswith [] p"
  by (auto simp: startswith_def)

lemma line_classes:
  "length (filter (\<lambda>l. strip l \<noteq> [] \<and> \<not> startswith (strip l) (ascii ''#'')) ls)
     + length (filter (\<lambda>l. startswith (strip l) (ascii ''#'')) ls)
     + length (filter (\<lambda>l. strip l = []) ls) = length ls"
proof (induction ls)
  case Nil
  show ?case by simp
next
  case (Cons l ls)
  have "\<not> startswith [] (ascii ''#'')"
    by (rule not_startswith_Nil) (simp add: ascii_def)
  with Cons show ?case by auto
qed

lemma total_lines_eq: "total_lines (file_metrics_of content) = length (split_on 10 (strip content))"
  by (simp add: file_metrics_of_def Let_def)

lemma file_metrics_partition:
  "total_lines (file_metrics_of content) =
     code_lines (file_metrics_of content) + comment_lines (file_metrics_of content)
       + blank_count (split_on 10 (strip content))"
  using line_classes [of "split_on 10 (strip content)"]
  by (simp add: file_metrics_of_def Let_def blank_count_def)

lemma file_metrics_total_pos: "1 \<le> total_lines (file_metrics_of content)"
  unfolding total_lines_eq by (rule length_split_on)

lemma file_metrics_comment_le:
  "comment_lines (file_metrics_of content) \<le> total_lines (file_metrics_of content)"
  by (simp add: file_metrics_of_def Let_def)

lemma file_metrics_ratio:
  "comment_ratio (file_metrics_of content) =
     py_round2 (binary64 (binary64 (of_nat (comment_lines (file_metrics_of content))
                                     / of_nat (total_lines (file_metrics_of content))) * 100))"
  using split_on_not_Nil [of 10 "strip content"]
  by (simp add: file_metrics_of_def Let_def)

lemma file_metrics_ratio_bounds:
  "0 \<le> comment_ratio (file_metrics_of content)"
  "comment_ratio (file_metrics_of content) \<le> 100"
proof -
  define c where "c = comment_lines (file_metrics_of content)"
  define t where "t = total_lines (file_metrics_of content)"
  have t: "1 \<le> t"
    unfolding t_def by (rule file_metrics_total_pos)
  have ct: "c \<le> t"
    unfolding c_def t_def by (rule file_metrics_comment_le)
  have q: "0 \<le> rat_of_nat c / of_nat t" "rat_of_nat c / of_nat t \<le> 1"
    using t ct by (simp_all add: divide_le_eq_1)
  have b: "0 \<le> binary64 (of_nat c / of_nat t)" "binary64 (of_nat c / of_nat t) \<le> 1"
    using q by (rule binary64_unit_interval)+
  have p: "0 \<le> binary64 (binary64 (of_nat c / of_nat t) * 100)"
          "binary64 (binary64 (of_nat c / of_nat t) * 100) \<le> 100"
    using b by (intro binary64_percent_interval; simp)+
  have r: "comment_ratio (file_metrics_of content) =
             py_round2 (binary64 (binary64 (of_nat c / of_nat t) * 100))"
    unfolding c_def t_def by (rule file_metrics_ratio)
  show "0 \<le> comment_ratio (file_metrics_of content)"
    unfolding r using p by (rule py_round2_percent_interval)
  show "comment_ratio (file_metrics_of content) \<le> 100"
    unfolding r using p by (rule py_round2_percent_interval)
qed

lemma file_metrics_ratio_no_comment:
  assumes "comment_lines (file_metrics_of content) = 0"
  shows "comment_ratio (file_metrics_of content) = 0"
  using assms by (simp add: file_metrics_ratio binary64_0 py_round2_0)

text \<open>The loop stores one entry per file, in the order of the FileSet.\<close>

lemma metrics_loop_append:
  assumes "distinct (map fst files)" and "set (map fst files) \<inter> set (map fst acc) = {}"
  shows "metrics_loop acc files = acc @ map (\<lambda>(n, c). (n, file_metrics_of c)) files"
  using assms
proof (induction files arbitrary: acc)
  case Nil
  show ?case by simp
next
  case (Cons f files)
  obtain n c where f: "f = (n, c)" by (cases f)
  from Cons.prems have n: "n \<notin> set (map fst acc)" and d: "distinct (map fst files)"
    and nf: "n \<notin> set (map fst files)" and i: "set (map fst files) \<inter> set (map fst acc) = {}"
    by (auto simp: f)
  have u: "AList.update n (file_metrics_of c) acc = acc @ [(n, file_metrics_of c)]"
    using n by (induction acc) auto
  have "set (map fst files) \<inter> set (map fst (acc @ [(n, file_metrics_of c)])) = {}"
    using i nf by auto
  with d have "metrics_loop (acc @ [(n, file_metrics_of c)]) files =
      (acc @ [(n, file_metrics_of c)]) @ map (\<lambda>(n, c). (n, file_metrics_of c)) files"
    by (rule Cons.IH)
  then show ?case by (simp add: f u)
qed

lemma calculate_code_metrics_map:
  assumes "distinct (map fst files)"
  shows "calculate_code_metrics files = map (\<lambda>(n, c). (n, file_metrics_of c)) files"
  using metrics_loop_append [OF assms, of "[]"] by (simp add: calculate_code_metrics_def)

lemma calculate_code_metrics_keys:
  assumes "distinct (map fst files)"
  shows "map fst (calculate_code_metrics files) = map fst files"
  by (simp add: calculate_code_metrics_map [OF assms] case_prod_unfold comp_def)

lemma calculate_code_metrics_lookup:
  assumes "distinct (map fst files)" and "(filename, content) \<in> set files"
  shows "map_of (calculate_code_metrics files) filename = Some (file_metrics_of content)"
proof -
  have "map_of (map (\<lambda>(n, c). (n, file_metrics_of c)) files) filename
          = map_option file_metrics_of (map_of files filename)"
    by (induction files) auto
  moreover have "map_of files filename = Some content"
    using assms by (rule map_of_is_SomeI)
  ultimately show ?thesis
    by (simp add: calculate_code_metrics_map [OF assms(1)])
qed

subsection \<open>Two small files, evaluated\<close>

lemma code_lines_eq:
  "code_lines (file_metrics_of content) =
     length (filter (\<lambda>l. strip l \<noteq> [] \<and> \<not> startswith (strip l) (ascii ''#''))
               (split_on 10 (strip content)))"
  by (simp add: file_metrics_of_def Let_def)

lemma comment_lines_eq:
  "comment_lines (file_metrics_of content) =
     length (filter (\<lambda>l. startswith (strip l) (ascii ''#'')) (split_on 10 (strip content)))"
  by (simp add: file_metrics_of_def Let_def)

lemma one_line_strip: "strip (ascii ''x = 1'') = ascii ''x = 1''"
  by (simp add: strip_def ascii_def is_space_def)

lemma one_line_lines: "split_on 10 (ascii ''x = 1'') = [ascii ''x = 1'']"
  by (simp add: ascii_def)

lemma one_line_total: "total_lines (file_metrics_of (ascii ''x = 1'')) = 1"
  by (simp add: total_lines_eq one_line_strip one_line_lines)

lemma one_line_comment: "comment_lines (file_metrics_of (ascii ''x = 1'')) = 0"
  by (simp add: comment_lines_eq one_line_strip one_line_lines) (simp add: startswith_def ascii_def)

lemma blank_first_strip: "strip (ascii ''\<newline>x'') = ascii ''x''"
  by (simp add: strip_def ascii_def is_space_def)

lemma blank_first_lines: "split_on 10 (ascii ''x'') = [ascii ''x'']" "split_on 10 (ascii ''\<newline>x'') = [[], ascii ''x'']"
  by (simp_all add: ascii_def)

lemma blank_first_strip_line: "strip (ascii ''x'') = ascii ''x''" "strip [] = []"
  by (simp_all add: strip_def ascii_def is_space_def)

lemma blank_first_total: "total_lines (file_metrics_of (ascii ''\<newline>x'')) = 1"
  by (simp add: total_lines_eq blank_first_strip blank_first_lines)

lemma blank_first_code: "code_lines (file_metrics_of (ascii ''\<newline>x'')) = 1"
  by (simp add: code_lines_eq blank_first_strip blank_first_lines blank_first_strip_line) (simp add: startswith_def ascii_def)

lemma blank_first_comment: "comment_lines (file_metrics_of (ascii ''\<newline>x'')) = 0"
  by (simp add: comment_lines_eq blank_first_strip blank_first_lines blank_first_strip_line) (simp add: startswith_def ascii_def)

lemma blank_first_blank: "blank_count (split_on 10 (ascii ''\<newline>x'')) = 1"
  by (simp add: blank_count_def blank_first_lines blank_first_strip_line) (simp add: ascii_def)

text \<open>
  \<^bold>\<open>C6\<close> (as amended). For every file of the FileSet, the metrics stored for it satisfy
  \<open>total_lines = code_lines + comment_lines + b\<close>, where \<open>b\<close> counts the blank lines
  among the lines the calculator reads: those of the content with the white space at
  its two ends stripped, split at the newlines.
\<close>

theorem metrics_lines_partition:
  assumes "distinct (map fst files)" and "(filename, content) \<in> set files"
  shows "\<exists>m. map_of (calculate_code_metrics files) filename = Some m \<and>
             total_lines m =
               code_lines m + comment_lines m + blank_count (split_on 10 (strip content))"
  using calculate_code_metrics_lookup [OF assms] file_metrics_partition [of content]
  by simp

theorem metrics_lines_partition_witness:
  "distinct (map fst [(ascii ''a.py'', ascii ''# c\<newline>\<newline>x = 1\<newline>'')]) \<and>
   (ascii ''a.py'', ascii ''# c\<newline>\<newline>x = 1\<newline>'') \<in> set [(ascii ''a.py'', ascii ''# c\<newline>\<newline>x = 1\<newline>'')] \<and>
   (\<exists>m. map_of (calculate_code_metrics [(ascii ''a.py'', ascii ''# c\<newline>\<newline>x = 1\<newline>'')]) (ascii ''a.py'') = Some m \<and>
        total_lines m = code_lines m + comment_lines m
          + blank_count (split_on 10 (strip (ascii ''# c\<newline>\<newline>x = 1\<newline>''))))"
  using metrics_lines_partition [of "[(ascii ''a.py'', ascii ''# c\<newline>\<newline>x = 1\<newline>'')]"
      "ascii ''a.py''" "ascii ''# c\<newline>\<newline>x = 1\<newline>''"]
  by simp

text \<open>
  The claim as the spec words it counts the blank lines of the file: the content split
  at the newlines. The file \<^verbatim>\<open>"\nx"\<close> has two lines, the first of them blank, and its
  metrics are \<open>total_lines = 1\<close>, \<open>code_lines = 1\<close>, \<open>comment_lines = 0\<close>.
\<close>

theorem metrics_lines_partition_counterexample:
  "distinct (map fst [(ascii ''a.py'', ascii ''\<newline>x'')]) \<and>
   (ascii ''a.py'', ascii ''\<newline>x'') \<in> set [(ascii ''a.py'', ascii ''\<newline>x'')] \<and>
   map_of (calculate_code_metrics [(ascii ''a.py'', ascii ''\<newline>x'')]) (ascii ''a.py'')
     = Some (file_metrics_of (ascii ''\<newline>x'')) \<and>
   total_lines (file_metrics_of (ascii ''\<newline>x'')) = 1 \<and>
   code_lines (file_metrics_of (ascii ''\<newline>x'')) = 1 \<and>
   comment_lines (file_metrics_of (ascii ''\<newline>x'')) = 0 \<and>
   blank_count (split_on 10 (ascii ''\<newline>x'')) = 1 \<and>
   total_lines (file_metrics_of (ascii ''\<newline>x'')) \<noteq>
     code_lines (file_metrics_of (ascii ''\<newline>x''))
       + comment_lines (file_metrics_of (ascii ''\<newline>x''))
       + blank_count (split_on 10 (ascii ''\<newline>x''))"
  by (simp add: calculate_code_metrics_lookup blank_first_total blank_first_code
      blank_first_comment blank_first_blank)

text \<open>
  \<^bold>\<open>C7\<close> (as amended). For every file of the FileSet, \<open>comment_ratio\<close> lies in
  \<open>[0, 100]\<close>, and it is 0 whenever the file has no comment line, whatever
  \<open>total_lines\<close> is.
\<close>

theorem comment_ratio_range:
  assumes "distinct (map fst files)" and "(filename, content) \<in> set files"
  shows "\<exists>m. map_of (calculate_code_metrics files) filename = Some m \<and>
             0 \<le> comment_ratio m \<and> comment_ratio m \<le> 100 \<and>
             (comment_lines m = 0 \<longrightarrow> comment_ratio m = 0)"
  using calculate_code_metrics_lookup [OF assms] file_metrics_ratio_bounds [of content]
    file_metrics_ratio_no_comment [of content]
  by simp

theorem comment_ratio_range_witness:
  "distinct (map fst [(ascii ''a.py'', ascii ''x = 1'')]) \<and>
   (ascii ''a.py'', ascii ''x = 1'') \<in> set [(ascii ''a.py'', ascii ''x = 1'')] \<and>
   comment_lines (file_metrics_of (ascii ''x = 1'')) = 0 \<and>
   (\<exists>m. map_of (calculate_code_metrics [(ascii ''a.py'', ascii ''x = 1'')]) (ascii ''a.py'') = Some m \<and>
        0 \<le> comment_ratio m \<and> comment_ratio m \<le> 100 \<and>
        (comment_lines m = 0 \<longrightarrow> comment_ratio m = 0))"
  using comment_ratio_range [of "[(ascii ''a.py'', ascii ''x = 1'')]" "ascii ''a.py''"
      "ascii ''x = 1''"]
  by (simp add: one_line_comment)

text \<open>
  The file \<^verbatim>\<open>"x = 1"\<close> has one line and no comment: its ratio is 0 and its
  \<open>total_lines\<close> is 1, not 0.
\<close>

theorem comment_ratio_zero_counterexample:
  "distinct (map fst [(ascii ''a.py'', ascii ''x = 1'')]) \<and>
   (ascii ''a.py'', ascii ''x = 1'') \<in> set [(ascii ''a.py'', ascii ''x = 1'')] \<and>
   map_of (calculate_code_metrics [(ascii ''a.py'', ascii ''x = 1'')]) (ascii ''a.py'')
     = Some (file_metrics_of (ascii ''x = 1'')) \<and>
   comment_ratio (file_metrics_of (ascii ''x = 1'')) = 0 \<and>
   total_lines (file_metrics_of (ascii ''x = 1'')) = 1 \<and>
   \<not> (comment_ratio (file_metrics_of (ascii ''x = 1'')) = 0
        \<longleftrightarrow> total_lines (file_metrics_of (ascii ''x = 1'')) = 0)"
  by (simp add: calculate_code_metrics_lookup one_line_total
      file_metrics_ratio_no_comment [OF one_line_comment])

text \<open>
  \<^bold>\<open>C10\<close>. For every file of the FileSet, the empty one and those of white space
  included, \<open>total_lines\<close> is at least 1; so the ratio is always the rounded quotient,
  never the 0 of the branch for \<open>total_lines = 0\<close>.
\<close>

theorem total_lines_positive:
  assumes "distinct (map fst files)" and "(filename, content) \<in> set files"
  shows "\<exists>m. map_of (calculate_code_metrics files) filename = Some m \<and>
             1 \<le> total_lines m \<and>
             comment_ratio m =
               py_round2 (binary64 (binary64 (of_nat (comment_lines m) / of_nat (total_lines m))
                                    * 100))"
  using calculate_code_metrics_lookup [OF assms] file_metrics_total_pos [of content]
    file_metrics_ratio [of content]
  by simp

theorem total_lines_positive_witness:
  "distinct (map fst [(ascii ''empty.py'', []), (ascii ''blank.py'', ascii '' \<newline>  '')]) \<and>
   (ascii ''empty.py'', []) \<in> set [(ascii ''empty.py'', []), (ascii ''blank.py'', ascii '' \<newline>  '')] \<and>
   (\<exists>m. map_of (calculate_code_metrics
                  [(ascii ''empty.py'', []), (ascii ''blank.py'', ascii '' \<newline>  '')])
           (ascii ''empty.py'') = Some m \<and> 1 \<le> total_lines m)"
proof -
  have d: "distinct (map fst [(ascii ''empty.py'', []), (ascii ''blank.py'', ascii '' \<newline>  '')])"
    by (simp add: ascii_def)
  have "\<exists>m. map_of (calculate_code_metrics
                  [(ascii ''empty.py'', []), (ascii ''blank.py'', ascii '' \<newline>  '')])
           (ascii ''empty.py'') = Some m \<and> 1 \<le> total_lines m"
    using total_lines_positive [OF d, of "ascii ''empty.py''" "[]"] by auto
  with d show ?thesis by simp
qed

end
